theory Spec2Isabelle
  imports Main "HOL-Library.FSet" "HOL-Library.Finite_Map"
begin

section \<open>The sticker simulation: data model\<close>

text \<open>
  The module \<^verbatim>\<open>sticker_simulation.py\<close> has two classes. \<^verbatim>\<open>Person\<close> owns an album
  (a Python set), a \<^verbatim>\<open>defaultdict(int)\<close> of repeated stickers, a finished flag, the money
  spent and the album size. \<^verbatim>\<open>Economy\<close> owns the dictionary of members and runs rounds of
  trade. Python sets and dictionaries are finite, so they are finite sets and finite maps
  here. Python integers are unbounded, so they are \<^typ>\<open>int\<close>.
\<close>

datatype error = ValueError | ZeroDivisionError

type_synonym sticker = int

text \<open>
  \<^verbatim>\<open>np.random.choice(range(a), size, replace=True)\<close> is a call into numpy, with a random
  result. Its outcome is an input of the model: either the call raises, or it returns the
  array of drawn stickers. A \<open>choice\<close> gives the outcome of one call from the size of the
  population and the number of samples asked for.
\<close>

type_synonym draw = "error + sticker list"
type_synonym choice = "int \<Rightarrow> int \<Rightarrow> draw"

text \<open>
  What numpy documents of that call: it raises \<^verbatim>\<open>ValueError\<close> only for a negative size or
  an empty population, and an array it returns has the size asked for and holds members
  of the population \<^verbatim>\<open>range(a)\<close>. (Whether an empty population with size zero raises has
  changed between numpy versions; both outcomes are admitted.)
\<close>

definition choice_ok :: "int \<Rightarrow> int \<Rightarrow> draw \<Rightarrow> bool" where
  "choice_ok a k d =
     (case d of
        Inl e \<Rightarrow> e = ValueError \<and> (k < 0 \<or> a \<le> 0)
      | Inr new_pack \<Rightarrow> int (length new_pack) = k \<and> list_all (\<lambda>s. 0 \<le> s \<and> s < a) new_pack)"

record Person =
  album :: "sticker fset"
  repeats :: "(sticker, int) fmap"
  is_finished :: bool
  money_spent :: int
  n_stickers :: int

text \<open>Reading \<^verbatim>\<open>repeats[k]\<close> of a \<^verbatim>\<open>defaultdict(int)\<close>: a missing key reads as 0.\<close>

definition repeats_get :: "(sticker, int) fmap \<Rightarrow> sticker \<Rightarrow> int" where
  "repeats_get r k = (case fmlookup r k of None \<Rightarrow> 0 | Some c \<Rightarrow> c)"

section \<open>Person\<close>

definition finished :: "Person \<Rightarrow> Person" where
  "finished p = (if int (fcard (album p)) = n_stickers p then p\<lparr>is_finished := True\<rparr> else p)"

definition receive_sticker :: "sticker \<Rightarrow> Person \<Rightarrow> Person" where
  "receive_sticker sticker p = p\<lparr>album := finsert sticker (album p)\<rparr>"

definition give_sticker :: "sticker \<Rightarrow> Person \<Rightarrow> Person" where
  "give_sticker sticker p =
     p\<lparr>repeats := fmupd sticker (repeats_get (repeats p) sticker - 1) (repeats p)\<rparr>"

text \<open>
  \<^verbatim>\<open>update_collection\<close> loops over two Python sets, whose iteration order is not
  specified; the loops run here in ascending order (lemmas \<open>album_receive_loop\<close> and
  \<open>lookup_give_loop\<close> below show that the result does not depend on the order).
\<close>

definition update_collection :: "Person \<Rightarrow> sticker fset \<Rightarrow> sticker fset \<Rightarrow> Person" where
  "update_collection p stickers_giving stickers_receving =
     finished
       (fold give_sticker (sorted_list_of_fset stickers_giving)
          (fold receive_sticker (sorted_list_of_fset stickers_receving) p))"

definition pack_sticker :: "sticker \<Rightarrow> Person \<Rightarrow> Person" where
  "pack_sticker sticker p =
     (if sticker |\<notin>| album p then p\<lparr>album := finsert sticker (album p)\<rparr>
      else p\<lparr>repeats := fmupd sticker (repeats_get (repeats p) sticker + 1) (repeats p)\<rparr>)"

text \<open>
  \<^verbatim>\<open>buy_pack\<close> adds one to \<^verbatim>\<open>money_spent\<close> before it draws, so a draw that raises leaves
  the object with the money spent: the result is the object after the call, and the
  error when the call raised.
\<close>

definition buy_pack :: "Person \<Rightarrow> int \<Rightarrow> choice \<Rightarrow> Person \<times> error option" where
  "buy_pack p stickers_per_pack ch =
     (let p1 = p\<lparr>money_spent := money_spent p + 1\<rparr> in
      case ch (n_stickers p) stickers_per_pack of
        Inl e \<Rightarrow> (p1, Some e)
      | Inr new_pack \<Rightarrow> (finished (fold pack_sticker new_pack p1), None))"

definition Person_init :: "int \<Rightarrow> int \<Rightarrow> choice \<Rightarrow> error + Person" where
  "Person_init endowment n ch =
     (case buy_pack \<lparr>album = {||}, repeats = fmempty, is_finished = False,
                      money_spent = 0, n_stickers = n\<rparr> endowment ch of
        (p, Some e) \<Rightarrow> Inl e
      | (p, None) \<Rightarrow> Inr p)"

section \<open>Economy.trade\<close>

text \<open>
  \<^verbatim>\<open>set(k for k in p.repeats if p.repeats[k] > 0)\<close>, and what a person can receive from
  another: what the other can give, minus the own album.
\<close>

definition can_give :: "Person \<Rightarrow> sticker fset" where
  "can_give p = ffilter (\<lambda>k. 0 < repeats_get (repeats p) k) (fmdom (repeats p))"

definition can_receive :: "Person \<Rightarrow> Person \<Rightarrow> sticker fset" where
  "can_receive p other = can_give other |-| album p"

text \<open>
  The two persons are two objects: \<^verbatim>\<open>round_of_trade\<close> calls \<^verbatim>\<open>trade\<close> on two members
  under different keys, or on a member and a newly made stranger. The result holds the
  flag and the two objects after the call.
\<close>

definition trade :: "Person \<Rightarrow> Person \<Rightarrow> bool \<times> Person \<times> Person" where
  "trade person1 person2 =
     (let person1_can_receive = can_receive person1 person2;
          person2_can_receive = can_receive person2 person1
      in if 0 < fcard person1_can_receive \<and> 0 < fcard person2_can_receive
         then (True,
               update_collection person1 person2_can_receive person1_can_receive,
               update_collection person2 person1_can_receive person2_can_receive)
         else (False, person1, person2))"

section \<open>Economy\<close>

text \<open>
  The members are made by \<^verbatim>\<open>create_people\<close> under the keys \<^verbatim>\<open>"id0"\<close>, \<^verbatim>\<open>"id1"\<close>, ... in
  this order, and no key is added or removed later: the dictionary is the list of the
  persons, the member \<^verbatim>\<open>"id" + str(i)\<close> at position \<open>i\<close>. \<^verbatim>\<open>finishers\<close> is a set of Person
  objects, compared by identity; only members are added to it, so it is the set of their
  positions. \<open>album_size\<close> is the attribute \<^verbatim>\<open>n_stickers\<close> of the economy.
\<close>

record Economy =
  n_friends :: int
  n_randos :: int
  stickers_per_pack :: int
  finishers :: "nat fset"
  album_size :: int
  members :: "Person list"

text \<open>
  The random source of a run: the outcome of the \<open>c\<close>-th call of \<^verbatim>\<open>np.random.choice\<close>.
  The functions below take the number of calls made so far and return it updated.
\<close>

type_synonym rng = "nat \<Rightarrow> choice"

fun create_people_loop ::
  "rng \<Rightarrow> int \<Rightarrow> int \<Rightarrow> nat \<Rightarrow> Person list \<times> nat \<Rightarrow> error + Person list \<times> nat" where
  "create_people_loop g endowment n 0 (ms, c) = Inr (ms, c)"
| "create_people_loop g endowment n (Suc k) (ms, c) =
     (case Person_init endowment n (g c) of
        Inl e \<Rightarrow> Inl e
      | Inr p \<Rightarrow> create_people_loop g endowment n k (ms @ [p], Suc c))"

definition create_people :: "rng \<Rightarrow> int \<Rightarrow> int \<Rightarrow> int \<Rightarrow> nat \<Rightarrow> error + Person list \<times> nat" where
  "create_people g nf endowment n c = create_people_loop g endowment n (nat nf) ([], c)"

definition Economy_init ::
  "rng \<Rightarrow> nat \<Rightarrow> int \<Rightarrow> int \<Rightarrow> int \<Rightarrow> int \<Rightarrow> int \<Rightarrow> error + Economy \<times> nat" where
  "Economy_init g c nf starting_endowment nr spp n_stickers_in_album =
     (case create_people g nf starting_endowment n_stickers_in_album c of
        Inl e \<Rightarrow> Inl e
      | Inr (ms, c') \<Rightarrow>
          Inr (\<lparr>n_friends = nf, n_randos = nr, stickers_per_pack = spp, finishers = {||},
                album_size = n_stickers_in_album, members = ms\<rparr>, c'))"

definition update_member :: "Economy \<Rightarrow> nat \<Rightarrow> Person \<Rightarrow> Economy" where
  "update_member e person_id person =
     (let e1 = (if is_finished person then e\<lparr>finishers := finsert person_id (finishers e)\<rparr>
                else e)
      in e1\<lparr>members := (members e1)[person_id := person]\<rparr>)"

section \<open>Economy.round_of_trade\<close>

text \<open>
  \<^verbatim>\<open>combinations(self.members, 2)\<close>: the pairs of keys in the order of the dictionary,
  the first key before the second.
\<close>

definition friend_pairs :: "nat \<Rightarrow> (nat \<times> nat) list" where
  "friend_pairs n = concat (map (\<lambda>i. map (Pair i) [Suc i..<n]) [0..<n])"

text \<open>
  The persons are mutable objects held by the dictionary, so what \<^verbatim>\<open>trade\<close> does to them
  is written back to the members whether or not a trade took place; \<^verbatim>\<open>update_member\<close>
  then only has to record the finishers.
\<close>

definition friend_step :: "nat \<times> nat \<Rightarrow> Economy \<times> nat fset \<Rightarrow> Economy \<times> nat fset" where
  "friend_step ids st =
     (case ids of (id1, id2) \<Rightarrow> case st of (e, have_traded) \<Rightarrow>
        let person1 = members e ! id1; person2 = members e ! id2 in
        if is_finished person1 \<or> is_finished person2 then (e, have_traded)
        else
          case trade person1 person2 of (they_traded, person1', person2') \<Rightarrow>
            let e1 = e\<lparr>members := (members e)[id1 := person1', id2 := person2']\<rparr> in
            if they_traded
            then (update_member (update_member e1 id1 (finished person1')) id2
                    (finished person2'),
                  finsert id2 (finsert id1 have_traded))
            else (e1, have_traded))"

definition friend_phase :: "Economy \<Rightarrow> Economy \<times> nat fset" where
  "friend_phase e = fold friend_step (friend_pairs (length (members e))) (e, {||})"

text \<open>The inner loop \<^verbatim>\<open>for _ in range(self.n_randos)\<close> of one member, \<open>k\<close> strangers to go.\<close>

fun rando_loop ::
  "rng \<Rightarrow> int \<Rightarrow> nat \<Rightarrow> nat \<Rightarrow> Economy \<times> nat fset \<times> nat \<Rightarrow> error + Economy \<times> nat fset \<times> nat"
  where
  "rando_loop g rando_endowment person_id 0 st = Inr st"
| "rando_loop g rando_endowment person_id (Suc k) (e, have_traded, c) =
     (case Person_init rando_endowment (album_size e) (g c) of
        Inl err \<Rightarrow> Inl err
      | Inr rando \<Rightarrow>
          (case trade (members e ! person_id) rando of (traded, person, rando') \<Rightarrow>
             let e1 = e\<lparr>members := (members e)[person_id := person]\<rparr> in
             rando_loop g rando_endowment person_id k
               (if traded
                then (update_member e1 person_id (finished person),
                      finsert person_id have_traded, Suc c)
                else (e1, have_traded, Suc c))))"

fun rando_phase ::
  "rng \<Rightarrow> int \<Rightarrow> nat list \<Rightarrow> Economy \<times> nat fset \<times> nat \<Rightarrow> error + Economy \<times> nat fset \<times> nat"
  where
  "rando_phase g rando_endowment [] st = Inr st"
| "rando_phase g rando_endowment (person_id # ids) (e, have_traded, c) =
     (if is_finished (members e ! person_id)
      then rando_phase g rando_endowment ids (e, have_traded, c)
      else
        case rando_loop g rando_endowment person_id (nat (n_randos e)) (e, have_traded, c) of
          Inl err \<Rightarrow> Inl err
        | Inr st' \<Rightarrow> rando_phase g rando_endowment ids st')"

text \<open>
  The last loop runs over the set \<^verbatim>\<open>did_not_trade\<close>, in an order Python does not specify;
  here in the order of the keys. Each turn changes its own member only.
\<close>

fun buy_phase :: "rng \<Rightarrow> nat list \<Rightarrow> Economy \<times> nat \<Rightarrow> error + Economy \<times> nat" where
  "buy_phase g [] st = Inr st"
| "buy_phase g (person_id # ids) (e, c) =
     (case buy_pack (members e ! person_id) (stickers_per_pack e) (g c) of
        (person, Some err) \<Rightarrow> Inl err
      | (person, None) \<Rightarrow>
          buy_phase g ids (update_member e person_id (finished person), Suc c))"

definition did_not_trade :: "Economy \<Rightarrow> nat fset \<Rightarrow> nat list" where
  "did_not_trade e have_traded =
     filter (\<lambda>person_id. person_id |\<notin>| have_traded) [0..<length (members e)]"

text \<open>The first two phases, with the set \<^verbatim>\<open>have_traded\<close> they leave.\<close>

definition trade_phases ::
  "rng \<Rightarrow> int \<Rightarrow> Economy \<times> nat \<Rightarrow> error + Economy \<times> nat fset \<times> nat" where
  "trade_phases g rando_endowment st =
     (case st of (e, c) \<Rightarrow>
        case friend_phase e of (e1, have_traded) \<Rightarrow>
          rando_phase g rando_endowment [0..<length (members e1)] (e1, have_traded, c))"

definition round_of_trade :: "rng \<Rightarrow> int \<Rightarrow> Economy \<times> nat \<Rightarrow> error + Economy \<times> nat" where
  "round_of_trade g rando_endowment st =
     (case trade_phases g rando_endowment st of
        Inl err \<Rightarrow> Inl err
      | Inr (e2, have_traded, c2) \<Rightarrow> buy_phase g (did_not_trade e2 have_traded) (e2, c2))"

section \<open>Economy.run_simulation\<close>

definition n_finished :: "Economy \<Rightarrow> int" where
  "n_finished e = int (length (filter is_finished (members e)))"

text \<open>
  What one logging turn prints: the round, the number of finishers and the money spent.
\<close>

definition log_line :: "Economy \<Rightarrow> int \<Rightarrow> int \<times> int \<times> int" where
  "log_line e n_rounds =
     (n_rounds, int (fcard (finishers e)), sum_list (map money_spent (members e)))"

text \<open>
  The \<^verbatim>\<open>while\<close> loop has no bound in the source; \<open>fuel\<close> bounds the number of rounds, and
  \<open>None\<close> says that it ran out. A loop that is not entered needs no fuel. The result holds
  the economy, the number of draws made, \<^verbatim>\<open>n_rounds\<close> and the printed lines.
\<close>

fun run_loop ::
  "nat \<Rightarrow> rng \<Rightarrow> int \<Rightarrow> int \<Rightarrow> Economy \<times> nat \<Rightarrow> int \<Rightarrow> (int \<times> int \<times> int) list \<Rightarrow>
   (error + Economy \<times> nat \<times> int \<times> (int \<times> int \<times> int) list) option" where
  "run_loop fuel g rando_endowment n_logging (e, c) n_rounds out =
     (if n_finished e < n_friends e then
        (case fuel of
           0 \<Rightarrow> None
         | Suc fuel' \<Rightarrow>
             if n_logging = 0 then Some (Inl ZeroDivisionError)
             else
               let out1 = (if n_rounds mod n_logging = 0 then out @ [log_line e n_rounds]
                           else out)
               in (case round_of_trade g rando_endowment (e, c) of
                     Inl err \<Rightarrow> Some (Inl err)
                   | Inr st' \<Rightarrow>
                       run_loop fuel' g rando_endowment n_logging st' (n_rounds + 1) out1))
      else Some (Inr (e, c, n_rounds, out)))"

definition run_simulation ::
  "nat \<Rightarrow> rng \<Rightarrow> int \<Rightarrow> int \<Rightarrow> Economy \<times> nat \<Rightarrow>
   (error + Economy \<times> nat \<times> int \<times> (int \<times> int \<times> int) list) option" where
  "run_simulation fuel g rando_endowment n_logging st =
     run_loop fuel g rando_endowment n_logging st 0 []"

section \<open>Sequences of calls, invariants and examples\<close>

text \<open>
  The two operations that change a Person after its construction, as data, so that a
  sequence of calls on one object is a list: \<open>foldl call p cs\<close> is the object after the
  calls \<open>cs\<close>. A call that raises leaves the object as \<^verbatim>\<open>buy_pack\<close> left it.
\<close>

datatype person_call = Buy_pack int choice | Update_collection "sticker fset" "sticker fset"

fun call :: "Person \<Rightarrow> person_call \<Rightarrow> Person" where
  "call p (Buy_pack k ch) = fst (buy_pack p k ch)"
| "call p (Update_collection stickers_giving stickers_receving) =
     update_collection p stickers_giving stickers_receving"

text \<open>
  A call stays in the album's range when its draw is one numpy can make, or when the
  stickers it receives are identifiers of the album, \<^verbatim>\<open>range(n_stickers)\<close>.
\<close>

fun call_in_range :: "int \<Rightarrow> person_call \<Rightarrow> bool" where
  "call_in_range n (Buy_pack k ch) = choice_ok n k (ch n k)"
| "call_in_range n (Update_collection stickers_giving stickers_receving) =
     fBall stickers_receving (\<lambda>s. 0 \<le> s \<and> s < n)"

definition in_range :: "int \<Rightarrow> sticker fset \<Rightarrow> bool" where
  "in_range n A = fBall A (\<lambda>s. 0 \<le> s \<and> s < n)"

definition person_inv :: "int \<Rightarrow> Person \<Rightarrow> bool" where
  "person_inv n p =
     (n_stickers p = n \<and> in_range n (album p) \<and>
      (is_finished p \<longleftrightarrow> int (fcard (album p)) = n))"

definition monies :: "Economy \<Rightarrow> int list" where
  "monies e = map money_spent (members e)"

text \<open>Random sources for the examples: one fixed pack, and a list of packs in turn.\<close>

definition drawn :: "sticker list \<Rightarrow> choice" where
  "drawn xs a k = Inr xs"

definition tape :: "sticker list list \<Rightarrow> rng" where
  "tape packs c a k = (if c < length packs then Inr (packs ! c) else Inl ValueError)"

text \<open>
  Persons and economies for the examples. \<open>alice\<close> and \<open>bob\<close> each hold a repeat of the
  sticker in their album; \<open>carol\<close> and \<open>dave\<close> each hold a repeat of the sticker in the
  other's album.
\<close>

definition alice :: Person where
  "alice = \<lparr>album = {|0|}, repeats = fmupd 0 1 fmempty, is_finished = False,
            money_spent = 1, n_stickers = 2\<rparr>"

definition bob :: Person where
  "bob = \<lparr>album = {|1|}, repeats = fmupd 1 1 fmempty, is_finished = False,
          money_spent = 1, n_stickers = 2\<rparr>"

definition carol :: Person where
  "carol = \<lparr>album = {|0|}, repeats = fmupd 1 1 fmempty, is_finished = False,
            money_spent = 1, n_stickers = 2\<rparr>"

definition dave :: Person where
  "dave = \<lparr>album = {|1|}, repeats = fmupd 0 1 fmempty, is_finished = False,
           money_spent = 1, n_stickers = 2\<rparr>"

definition three_friends :: Economy where
  "three_friends =
     \<lparr>n_friends = 3, n_randos = 0, stickers_per_pack = 1, finishers = {||}, album_size = 3,
      members =
        [\<lparr>album = {|0|}, repeats = fmupd 0 1 fmempty, is_finished = False,
          money_spent = 1, n_stickers = 3\<rparr>,
         \<lparr>album = {|1|}, repeats = fmupd 1 1 fmempty, is_finished = False,
          money_spent = 1, n_stickers = 3\<rparr>,
         \<lparr>album = {|0, 2|}, repeats = fmempty, is_finished = False,
          money_spent = 1, n_stickers = 3\<rparr>]\<rparr>"

definition three_friends_traded :: Economy where
  "three_friends_traded =
     \<lparr>n_friends = 3, n_randos = 0, stickers_per_pack = 1, finishers = {||}, album_size = 3,
      members =
        [\<lparr>album = {|0, 1|}, repeats = fmupd 0 0 fmempty, is_finished = False,
          money_spent = 1, n_stickers = 3\<rparr>,
         \<lparr>album = {|0, 1|}, repeats = fmupd 1 0 fmempty, is_finished = False,
          money_spent = 1, n_stickers = 3\<rparr>,
         \<lparr>album = {|0, 2|}, repeats = fmempty, is_finished = False,
          money_spent = 1, n_stickers = 3\<rparr>]\<rparr>"

definition three_friends_after :: Economy where
  "three_friends_after =
     \<lparr>n_friends = 3, n_randos = 0, stickers_per_pack = 1, finishers = {|2|}, album_size = 3,
      members =
        [\<lparr>album = {|0, 1|}, repeats = fmupd 0 0 fmempty, is_finished = False,
          money_spent = 1, n_stickers = 3\<rparr>,
         \<lparr>album = {|0, 1|}, repeats = fmupd 1 0 fmempty, is_finished = False,
          money_spent = 1, n_stickers = 3\<rparr>,
         \<lparr>album = {|0, 1, 2|}, repeats = fmempty, is_finished = True,
          money_spent = 2, n_stickers = 3\<rparr>]\<rparr>"

definition two_friends :: Economy where
  "two_friends =
     \<lparr>n_friends = 2, n_randos = 0, stickers_per_pack = 1, finishers = {||}, album_size = 2,
      members =
        [\<lparr>album = {|0, 1|}, repeats = fmempty, is_finished = True,
          money_spent = 1, n_stickers = 2\<rparr>,
         \<lparr>album = {|0|}, repeats = fmupd 0 1 fmempty, is_finished = False,
          money_spent = 1, n_stickers = 2\<rparr>]\<rparr>"

declare run_loop.simps [simp del]

section \<open>Person: what the operations do to each field\<close>

lemma finished_fields [simp]:
  "album (finished p) = album p" "repeats (finished p) = repeats p"
  "money_spent (finished p) = money_spent p" "n_stickers (finished p) = n_stickers p"
  by (simp_all add: finished_def)

lemma is_finished_finished:
  "is_finished (finished p) = (is_finished p \<or> int (fcard (album p)) = n_stickers p)"
  by (simp add: finished_def)

lemma receive_loop_fields [simp]:
  "repeats (fold receive_sticker xs p) = repeats p"
  "money_spent (fold receive_sticker xs p) = money_spent p"
  "n_stickers (fold receive_sticker xs p) = n_stickers p"
  "is_finished (fold receive_sticker xs p) = is_finished p"
  by (induction xs arbitrary: p) (simp_all add: receive_sticker_def)

lemma album_receive_loop: "album (fold receive_sticker xs p) = album p |\<union>| fset_of_list xs"
  by (induction xs arbitrary: p) (auto simp: receive_sticker_def)

lemma give_sticker_fields [simp]:
  "album (give_sticker s p) = album p"
  "money_spent (give_sticker s p) = money_spent p"
  "n_stickers (give_sticker s p) = n_stickers p"
  "is_finished (give_sticker s p) = is_finished p"
  "repeats (give_sticker s p) = fmupd s (repeats_get (repeats p) s - 1) (repeats p)"
  by (simp_all add: give_sticker_def)

lemma give_loop_fields [simp]:
  "album (fold give_sticker xs p) = album p"
  "money_spent (fold give_sticker xs p) = money_spent p"
  "n_stickers (fold give_sticker xs p) = n_stickers p"
  "is_finished (fold give_sticker xs p) = is_finished p"
  by (induction xs arbitrary: p) simp_all

lemma lookup_give_loop_notin:
  "k \<notin> set xs \<Longrightarrow> fmlookup (repeats (fold give_sticker xs p)) k = fmlookup (repeats p) k"
  by (induction xs arbitrary: p) simp_all

lemma lookup_give_loop:
  "distinct xs \<Longrightarrow>
   fmlookup (repeats (fold give_sticker xs p)) k =
     (if k \<in> set xs then Some (repeats_get (repeats p) k - 1) else fmlookup (repeats p) k)"
proof (induction xs arbitrary: p)
  case Nil
  then show ?case by simp
next
  case (Cons x xs)
  show ?case
  proof (cases "k = x")
    case True
    with Cons.prems have "k \<notin> set xs" by simp
    then have "fmlookup (repeats (fold give_sticker (x # xs) p)) k =
               fmlookup (repeats (give_sticker x p)) k"
      by (simp add: lookup_give_loop_notin)
    with True show ?thesis by simp
  next
    case False
    with Cons show ?thesis by (simp add: repeats_get_def)
  qed
qed

lemma distinct_sorted_list_of_fset: "distinct (sorted_list_of_fset S)"
  by (simp add: sorted_list_of_fset.rep_eq)

lemma album_update_collection [simp]:
  "album (update_collection p g r) = album p |\<union>| r"
  by (simp add: update_collection_def album_receive_loop)

lemma update_collection_fields [simp]:
  "money_spent (update_collection p g r) = money_spent p"
  "n_stickers (update_collection p g r) = n_stickers p"
  by (simp_all add: update_collection_def)

lemma lookup_update_collection:
  "fmlookup (repeats (update_collection p g r)) k =
     (if k |\<in>| g then Some (repeats_get (repeats p) k - 1) else fmlookup (repeats p) k)"
  by (simp add: update_collection_def lookup_give_loop distinct_sorted_list_of_fset)

lemma get_update_collection:
  "repeats_get (repeats (update_collection p g r)) k =
     (if k |\<in>| g then repeats_get (repeats p) k - 1 else repeats_get (repeats p) k)"
  by (simp add: repeats_get_def lookup_update_collection)

lemma is_finished_update_collection:
  "is_finished (update_collection p g r) =
     (is_finished p \<or> int (fcard (album p |\<union>| r)) = n_stickers p)"
  by (simp add: update_collection_def is_finished_finished album_receive_loop)

lemma pack_loop_fields [simp]:
  "money_spent (fold pack_sticker xs p) = money_spent p"
  "n_stickers (fold pack_sticker xs p) = n_stickers p"
  "is_finished (fold pack_sticker xs p) = is_finished p"
  by (induction xs arbitrary: p) (simp_all add: pack_sticker_def)

lemma album_pack_loop: "album (fold pack_sticker xs p) = album p |\<union>| fset_of_list xs"
  by (induction xs arbitrary: p) (auto simp: pack_sticker_def)

lemma money_spent_buy_pack: "money_spent (fst (buy_pack p k ch)) = money_spent p + 1"
  by (simp add: buy_pack_def Let_def split: sum.splits)

lemma n_stickers_buy_pack [simp]: "n_stickers (fst (buy_pack p k ch)) = n_stickers p"
  by (simp add: buy_pack_def Let_def split: sum.splits)

lemma album_buy_pack:
  "album (fst (buy_pack p k ch)) =
     (case ch (n_stickers p) k of Inl e \<Rightarrow> album p | Inr xs \<Rightarrow> album p |\<union>| fset_of_list xs)"
  by (simp add: buy_pack_def Let_def album_pack_loop split: sum.splits)

lemma is_finished_buy_pack_mono: "is_finished p \<Longrightarrow> is_finished (fst (buy_pack p k ch))"
  by (simp add: buy_pack_def Let_def is_finished_finished split: sum.splits)

section \<open>Person: the album stays in range, and finished means full\<close>

lemma in_range_full:
  assumes "in_range n A" "int (fcard A) = n" "A |\<subseteq>| B" "in_range n B"
  shows "int (fcard B) = n"
proof -
  have fin: "finite {0..<n}" by simp
  have A: "fset A \<subseteq> {0..<n}" using assms(1) by (auto simp: in_range_def)
  have B: "fset B \<subseteq> {0..<n}" using assms(4) by (auto simp: in_range_def)
  have "0 \<le> n" using assms(2) by linarith
  then have "card (fset A) = card {0..<n}" using assms(2) by (simp add: fcard.rep_eq)
  with A fin have "fset A = {0..<n}" by (simp add: card_subset_eq)
  moreover have "fset A \<subseteq> fset B" using assms(3) by (simp add: less_eq_fset.rep_eq)
  ultimately have "fset B = {0..<n}" using B by auto
  then show ?thesis using \<open>0 \<le> n\<close> by (simp add: fcard.rep_eq)
qed

lemma call_album_mono: "album p |\<subseteq>| album (call p c)"
  by (cases c) (auto simp: album_buy_pack split: sum.splits)

lemma calls_album_mono: "album p |\<subseteq>| album (foldl call p cs)"
proof (induction cs arbitrary: p)
  case Nil
  show ?case by simp
next
  case (Cons c cs)
  have "album p |\<subseteq>| album (call p c)" by (rule call_album_mono)
  also have "\<dots> |\<subseteq>| album (foldl call (call p c) cs)" by (rule Cons.IH)
  finally show ?case by simp
qed

lemma call_is_finished_mono: "is_finished p \<Longrightarrow> is_finished (call p c)"
  by (cases c) (simp_all add: is_finished_buy_pack_mono is_finished_update_collection)

lemma calls_is_finished_mono: "is_finished p \<Longrightarrow> is_finished (foldl call p cs)"
  by (induction cs arbitrary: p) (simp_all add: call_is_finished_mono)

lemma in_range_union: "in_range n (A |\<union>| B) = (in_range n A \<and> in_range n B)"
  by (auto simp: in_range_def)

lemma in_range_of_list: "in_range n (fset_of_list xs) = list_all (\<lambda>s. 0 \<le> s \<and> s < n) xs"
  by (auto simp: in_range_def list_all_iff fset_of_list.rep_eq)

lemma inv_finished_step:
  assumes "n_stickers p = n" "in_range n (album p)" "is_finished p \<longrightarrow> int (fcard (album p)) = n"
    and "n_stickers q = n" "in_range n (album q)" "album p |\<subseteq>| album q"
    and "is_finished q = is_finished p"
  shows "person_inv n (finished q)"
proof -
  have "is_finished p \<Longrightarrow> int (fcard (album q)) = n"
    using assms in_range_full [of n "album p" "album q"] by blast
  then show ?thesis
    using assms by (auto simp: person_inv_def is_finished_finished)
qed

lemma buy_pack_establishes_inv:
  assumes "n_stickers p = n" "in_range n (album p)" "is_finished p \<longrightarrow> int (fcard (album p)) = n"
    and "choice_ok n k (ch n k)" "ch n k = Inr xs"
  shows "person_inv n (fst (buy_pack p k ch))"
proof -
  let ?q = "fold pack_sticker xs (p\<lparr>money_spent := money_spent p + 1\<rparr>)"
  have "list_all (\<lambda>s. 0 \<le> s \<and> s < n) xs" using assms(4,5) by (simp add: choice_ok_def)
  then have "in_range n (album ?q)"
    using assms(2) by (simp add: album_pack_loop in_range_union in_range_of_list)
  moreover have "album p |\<subseteq>| album ?q" by (simp add: album_pack_loop)
  ultimately have "person_inv n (finished ?q)"
    using assms(1,2,3) by (intro inv_finished_step [of p]) simp_all
  then show ?thesis using assms(1,5) by (simp add: buy_pack_def Let_def)
qed

lemma call_preserves_inv:
  assumes "person_inv n p" "call_in_range n c"
  shows "person_inv n (call p c)"
proof (cases c)
  case (Buy_pack k ch)
  show ?thesis
  proof (cases "ch n k")
    case (Inl e)
    with assms Buy_pack show ?thesis by (simp add: person_inv_def buy_pack_def Let_def)
  next
    case (Inr xs)
    with assms Buy_pack show ?thesis
      using buy_pack_establishes_inv [of p n k ch xs] by (simp add: person_inv_def)
  qed
next
  case (Update_collection g r)
  let ?q = "fold give_sticker (sorted_list_of_fset g) (fold receive_sticker (sorted_list_of_fset r) p)"
  have "person_inv n (finished ?q)"
    using assms Update_collection
    by (intro inv_finished_step [of p])
       (simp_all add: person_inv_def album_receive_loop in_range_union, simp add: in_range_def)
  with Update_collection show ?thesis by (simp add: update_collection_def)
qed

lemma calls_preserve_inv:
  "person_inv n p \<Longrightarrow> list_all (call_in_range n) cs \<Longrightarrow> person_inv n (foldl call p cs)"
  by (induction cs arbitrary: p) (simp_all add: call_preserves_inv)

lemma Person_init_inv:
  assumes "choice_ok n endowment (ch n endowment)" "Person_init endowment n ch = Inr p0"
  shows "person_inv n p0"
proof -
  let ?p = "\<lparr>album = {||}, repeats = fmempty, is_finished = False, money_spent = 0, n_stickers = n\<rparr>"
  from assms(2) obtain xs where xs: "ch n endowment = Inr xs" and p0: "p0 = fst (buy_pack ?p endowment ch)"
    by (auto simp: Person_init_def buy_pack_def Let_def split: sum.splits)
  have "person_inv n (fst (buy_pack ?p endowment ch))"
    using assms(1) xs by (intro buy_pack_establishes_inv [of ?p n endowment ch xs]) (simp_all add: in_range_def)
  with p0 show ?thesis by simp
qed

section \<open>Trade: who can give and receive\<close>

lemma can_give_iff: "k |\<in>| can_give p \<longleftrightarrow> 0 < repeats_get (repeats p) k"
  by (auto simp: can_give_def repeats_get_def fmlookup_dom_iff split: option.splits)

lemma can_receive_iff:
  "k |\<in>| can_receive p other \<longleftrightarrow> 0 < repeats_get (repeats other) k \<and> k |\<notin>| album p"
  by (auto simp: can_receive_def can_give_iff)

lemma fcard_pos_iff: "0 < fcard A \<longleftrightarrow> A \<noteq> {||}"
  using fcard_0_eq [of A] by (cases "A = {||}") auto

lemma trade_unfold:
  "trade a b =
     (if can_receive a b \<noteq> {||} \<and> can_receive b a \<noteq> {||}
      then (True, update_collection a (can_receive b a) (can_receive a b),
            update_collection b (can_receive a b) (can_receive b a))
      else (False, a, b))"
  by (simp add: trade_def Let_def fcard_pos_iff)

lemma update_collection_grows:
  assumes "r \<noteq> {||}" "r |\<inter>| album p = {||}"
  shows "update_collection p g r \<noteq> p"
proof
  assume "update_collection p g r = p"
  then have "album (update_collection p g r) = album p" by simp
  then have "album p |\<union>| r = album p" by simp
  then have "r |\<subseteq>| album p" by blast
  with assms show False by blast
qed

lemma money_spent_trade:
  "money_spent (fst (snd (trade a b))) = money_spent a"
  "money_spent (snd (snd (trade a b))) = money_spent b"
  by (simp_all add: trade_def Let_def)

section \<open>Rounds: trading leaves the money spent alone\<close>

lemma length_monies [simp]: "length (monies e) = length (members e)"
  by (simp add: monies_def)

lemma nth_monies: "i < length (members e) \<Longrightarrow> monies e ! i = money_spent (members e ! i)"
  by (simp add: monies_def)

lemma monies_members_update:
  assumes "i < length (members e) \<Longrightarrow> money_spent q = monies e ! i"
  shows "monies (e\<lparr>members := (members e)[i := q]\<rparr>) = monies e"
proof (cases "i < length (members e)")
  case True
  with assms show ?thesis by (simp add: monies_def map_update list_update_same_conv)
next
  case False
  then show ?thesis by (simp add: monies_def list_update_beyond)
qed

lemma monies_update_member:
  assumes "i < length (members e) \<Longrightarrow> money_spent q = monies e ! i"
  shows "monies (update_member e i q) = monies e"
proof (cases "i < length (members e)")
  case True
  with assms show ?thesis
    by (simp add: update_member_def monies_def map_update list_update_same_conv Let_def)
next
  case False
  then show ?thesis by (simp add: update_member_def monies_def Let_def list_update_beyond)
qed

lemma monies_eq_length: "monies a = monies b \<Longrightarrow> length (members a) = length (members b)"
  by (metis length_monies)

lemma monies_update_same:
  assumes "monies e' = monies e" "money_spent q = money_spent (members e ! i)"
  shows "monies (update_member e' i q) = monies e"
proof -
  have "monies (update_member e' i q) = monies e'"
  proof (rule monies_update_member)
    assume "i < length (members e')"
    then have "i < length (members e)" using monies_eq_length [OF assms(1)] by simp
    then show "money_spent q = monies e' ! i" using assms by (simp add: nth_monies)
  qed
  with assms(1) show ?thesis by simp
qed

lemma monies_members_same:
  assumes "monies e' = monies e" "money_spent q = money_spent (members e ! i)"
  shows "monies (e'\<lparr>members := (members e')[i := q]\<rparr>) = monies e"
proof -
  have "monies (e'\<lparr>members := (members e')[i := q]\<rparr>) = monies e'"
  proof (rule monies_members_update)
    assume "i < length (members e')"
    then have "i < length (members e)" using monies_eq_length [OF assms(1)] by simp
    then show "money_spent q = monies e' ! i" using assms by (simp add: nth_monies)
  qed
  with assms(1) show ?thesis by simp
qed

lemma monies_friend_step: "monies (fst (friend_step ids st)) = monies (fst st)"
proof -
  obtain id1 id2 where ids: "ids = (id1, id2)" by (cases ids)
  obtain e ht where st: "st = (e, ht)" by (cases st)
  let ?p1 = "fst (snd (trade (members e ! id1) (members e ! id2)))"
  let ?p2 = "snd (snd (trade (members e ! id1) (members e ! id2)))"
  let ?ea = "e\<lparr>members := (members e)[id1 := ?p1]\<rparr>"
  let ?e1 = "e\<lparr>members := (members e)[id1 := ?p1, id2 := ?p2]\<rparr>"
  have a: "monies ?ea = monies e"
    by (rule monies_members_same) (simp_all add: money_spent_trade)
  have "monies (?ea\<lparr>members := (members ?ea)[id2 := ?p2]\<rparr>) = monies e"
    using a by (rule monies_members_same) (simp add: money_spent_trade)
  then have b: "monies ?e1 = monies e" by simp
  let ?eb = "update_member ?e1 id1 (finished ?p1)"
  have c: "monies ?eb = monies e"
    using b by (rule monies_update_same) (simp add: money_spent_trade)
  have d: "monies (update_member ?eb id2 (finished ?p2)) = monies e"
    using c by (rule monies_update_same) (simp add: money_spent_trade)
  show ?thesis
    using b d by (simp add: friend_step_def ids st Let_def case_prod_beta)
qed

lemma monies_fold_friend_step: "monies (fst (fold friend_step ps st)) = monies (fst st)"
  by (induction ps arbitrary: st) (simp_all add: monies_friend_step)

lemma monies_friend_phase: "monies (fst (friend_phase e)) = monies e"
  by (simp add: friend_phase_def monies_fold_friend_step)

lemma monies_rando_loop:
  "rando_loop g re i k (e, ht, c) = Inr (e', ht', c') \<Longrightarrow> monies e' = monies e"
proof (induction k arbitrary: e ht c)
  case 0
  then show ?case by simp
next
  case (Suc k)
  from Suc.prems obtain rando where
    rando: "Person_init re (album_size e) (g c) = Inr rando"
    by (auto split: sum.splits)
  let ?t = "trade (members e ! i) rando"
  let ?p = "fst (snd ?t)"
  let ?e1 = "e\<lparr>members := (members e)[i := ?p]\<rparr>"
  have 1: "monies ?e1 = monies e"
    by (rule monies_members_same) (simp_all add: money_spent_trade)
  have 2: "monies (update_member ?e1 i (finished ?p)) = monies e"
    using 1 by (rule monies_update_same) (simp add: money_spent_trade)
  show ?case
  proof (cases "fst ?t")
    case True
    with Suc.prems rando have
      "rando_loop g re i k (update_member ?e1 i (finished ?p), finsert i ht, Suc c) =
         Inr (e', ht', c')"
      by (simp add: case_prod_beta Let_def)
    from Suc.IH [OF this] 2 show ?thesis by simp
  next
    case False
    with Suc.prems rando have "rando_loop g re i k (?e1, ht, Suc c) = Inr (e', ht', c')"
      by (simp add: case_prod_beta Let_def)
    from Suc.IH [OF this] 1 show ?thesis by simp
  qed
qed

lemma monies_rando_phase:
  "rando_phase g re ids (e, ht, c) = Inr (e', ht', c') \<Longrightarrow> monies e' = monies e"
proof (induction ids arbitrary: e ht c)
  case Nil
  then show ?case by simp
next
  case (Cons i ids)
  show ?case
  proof (cases "is_finished (members e ! i)")
    case True
    with Cons show ?thesis by simp
  next
    case False
    with Cons.prems obtain e1 ht1 c1 where
      1: "rando_loop g re i (nat (n_randos e)) (e, ht, c) = Inr (e1, ht1, c1)" and
      2: "rando_phase g re ids (e1, ht1, c1) = Inr (e', ht', c')"
      by (auto split: sum.splits)
    from Cons.IH [OF 2] monies_rando_loop [OF 1] show ?thesis by simp
  qed
qed

lemma monies_trade_phases:
  "trade_phases g re (e, c) = Inr (e2, ht, c2) \<Longrightarrow> monies e2 = monies e"
  using monies_friend_phase [of e]
  by (auto simp: trade_phases_def split: prod.splits dest!: monies_rando_phase)

lemma buy_phase_money:
  assumes "buy_phase g ids (e, c) = Inr (e', c')" "distinct ids"
    and "\<forall>i \<in> set ids. i < length (members e)"
  shows "length (members e') = length (members e) \<and>
         (\<forall>i < length (members e). money_spent (members e' ! i) =
            money_spent (members e ! i) + (if i \<in> set ids then 1 else 0))"
  using assms
proof (induction ids arbitrary: e c)
  case Nil
  then show ?case by simp
next
  case (Cons j ids)
  let ?p = "fst (buy_pack (members e ! j) (stickers_per_pack e) (g c))"
  let ?e1 = "update_member e j (finished ?p)"
  from Cons.prems(1) have run: "buy_phase g ids (?e1, Suc c) = Inr (e', c')"
    by (auto split: prod.splits option.splits)
  have len: "length (members ?e1) = length (members e)"
    by (simp add: update_member_def Let_def)
  have j: "j < length (members e)" "j \<notin> set ids" using Cons.prems by simp_all
  have mem: "members ?e1 = (members e)[j := finished ?p]"
    by (simp add: update_member_def Let_def)
  have "length (members e') = length (members ?e1) \<and>
        (\<forall>i < length (members ?e1). money_spent (members e' ! i) =
            money_spent (members ?e1 ! i) + (if i \<in> set ids then 1 else 0))"
    using Cons.prems by (intro Cons.IH [OF run]) (simp_all add: len)
  then show ?case
    using j by (auto simp: len mem nth_list_update money_spent_buy_pack)
qed

lemma did_not_trade_props:
  "distinct (did_not_trade e ht)"
  "set (did_not_trade e ht) = {i. i < length (members e) \<and> i |\<notin>| ht}"
  by (auto simp: did_not_trade_def)

section \<open>Construction with an album of one sticker\<close>

lemma Person_init_album_size_one:
  assumes "choice_ok 1 k (ch 1 k)" "0 < k"
  shows "\<exists>p. Person_init k 1 ch = Inr p \<and> is_finished p"
proof -
  from assms obtain xs where xs: "ch 1 k = Inr xs" "int (length xs) = k"
    "list_all (\<lambda>s. 0 \<le> s \<and> s < 1) xs"
    by (auto simp: choice_ok_def split: sum.splits)
  from xs(2) assms(2) have ne: "xs \<noteq> []" by auto
  from xs(3) have "set xs \<subseteq> {0}" by (auto simp: list_all_iff)
  with ne have "set xs = {0}" by (cases xs) auto
  then have "fset_of_list xs = {|0|}"
    by (metis bot_fset.rep_eq finsert.rep_eq fset_inject fset_of_list.rep_eq)
  then show ?thesis
    using xs(1)
    by (simp add: Person_init_def buy_pack_def Let_def is_finished_finished album_pack_loop
        fcard_finsert_if)
qed

lemma create_people_loop_album_size_one:
  assumes "\<forall>i. c \<le> i \<and> i < c + m \<longrightarrow> choice_ok 1 k (g i 1 k)" "0 < k"
    and "list_all is_finished ms"
  shows "\<exists>ms'. create_people_loop g k 1 m (ms, c) = Inr (ms', c + m) \<and>
           length ms' = length ms + m \<and> list_all is_finished ms'"
  using assms
proof (induction m arbitrary: ms c)
  case 0
  then show ?case by simp
next
  case (Suc m)
  from Suc.prems have "choice_ok 1 k (g c 1 k)" by simp
  with Suc.prems(2) obtain p where p: "Person_init k 1 (g c) = Inr p" "is_finished p"
    using Person_init_album_size_one by blast
  have "\<exists>ms'. create_people_loop g k 1 m (ms @ [p], Suc c) = Inr (ms', Suc c + m) \<and>
           length ms' = length (ms @ [p]) + m \<and> list_all is_finished ms'"
    using Suc.prems p(2) by (intro Suc.IH) simp_all
  with p(1) show ?case by simp
qed

section \<open>The claims\<close>

subsection \<open>Trading\<close>

text \<open>
  Claim C1. \<^verbatim>\<open>trade(a, b)\<close> reports a trade exactly when both persons can receive
  something, it changes one of the two persons exactly then, and when one of them can
  receive nothing it returns \<open>False\<close> and both persons as they were, in every field.
\<close>

theorem trade_mutates_iff_both_receive:
  "(fst (trade a b) \<longleftrightarrow> can_receive a b \<noteq> {||} \<and> can_receive b a \<noteq> {||}) \<and>
   (fst (snd (trade a b)) \<noteq> a \<or> snd (snd (trade a b)) \<noteq> b \<longleftrightarrow>
      can_receive a b \<noteq> {||} \<and> can_receive b a \<noteq> {||}) \<and>
   (can_receive a b = {||} \<or> can_receive b a = {||} \<longrightarrow> trade a b = (False, a, b))"
proof -
  have "can_receive a b |\<inter>| album a = {||}" by (auto simp: can_receive_def)
  then have "can_receive a b \<noteq> {||} \<Longrightarrow>
      update_collection a (can_receive b a) (can_receive a b) \<noteq> a"
    by (rule update_collection_grows [rotated])
  then show ?thesis by (auto simp: trade_unfold)
qed

theorem trade_mutates_iff_both_receive_witness:
  "can_receive carol dave = {||} \<and> trade carol dave = (False, carol, dave) \<and>
   can_receive alice bob \<noteq> {||} \<and> can_receive bob alice \<noteq> {||} \<and>
   fst (trade alice bob) \<and> fst (snd (trade alice bob)) \<noteq> alice"
proof -
  have 1: "can_receive carol dave = {||}" by code_simp
  have 2: "can_receive alice bob \<noteq> {||}" by code_simp
  have 3: "can_receive bob alice \<noteq> {||}" by code_simp
  have 4: "fst (snd (trade alice bob)) \<noteq> alice" by code_simp
  show ?thesis
    using 1 2 3 4 trade_mutates_iff_both_receive [of carol dave]
      trade_mutates_iff_both_receive [of alice bob]
    by simp
qed

text \<open>
  Claim C2. When both persons can receive something, after \<^verbatim>\<open>trade(a, b)\<close> every sticker
  that \<open>a\<close> could receive is in the album of \<open>a\<close> and its count in the repeats of \<open>b\<close> is
  one less than before, and the same with the two persons exchanged.
\<close>

theorem trade_conservation:
  assumes "can_receive a b \<noteq> {||}" "can_receive b a \<noteq> {||}"
  shows "(\<forall>k. k |\<in>| can_receive a b \<longrightarrow>
            k |\<in>| album (fst (snd (trade a b))) \<and>
            repeats_get (repeats (snd (snd (trade a b)))) k = repeats_get (repeats b) k - 1) \<and>
         (\<forall>k. k |\<in>| can_receive b a \<longrightarrow>
            k |\<in>| album (snd (snd (trade a b))) \<and>
            repeats_get (repeats (fst (snd (trade a b)))) k = repeats_get (repeats a) k - 1)"
  using assms by (simp add: trade_unfold get_update_collection)

theorem trade_conservation_witness:
  "can_receive alice bob \<noteq> {||} \<and> can_receive bob alice \<noteq> {||} \<and>
   1 |\<in>| can_receive alice bob \<and> 1 |\<in>| album (fst (snd (trade alice bob))) \<and>
   repeats_get (repeats bob) 1 = 1 \<and>
   repeats_get (repeats (snd (snd (trade alice bob)))) 1 = 0"
proof -
  have 1: "can_receive alice bob \<noteq> {||}" by code_simp
  have 2: "can_receive bob alice \<noteq> {||}" by code_simp
  have 3: "1 |\<in>| can_receive alice bob" by code_simp
  have 4: "repeats_get (repeats bob) 1 = 1" by code_simp
  show ?thesis using 1 2 3 4 trade_conservation [OF 1 2] by simp
qed

text \<open>
  Claim C7. What a person gives in a trade is what the other can receive, and that is
  part of the stickers whose count in the giver's repeats is positive. So when a trade
  takes place each count goes down by one from a positive value, and a count that was
  not negative before the call is not negative after it.
\<close>

theorem trade_gives_only_repeats:
  "can_receive b a |\<subseteq>| can_give a \<and> can_receive a b |\<subseteq>| can_give b \<and>
   (\<forall>k. k |\<in>| can_give a \<longrightarrow> 0 < repeats_get (repeats a) k) \<and>
   (\<forall>k. k |\<in>| can_give b \<longrightarrow> 0 < repeats_get (repeats b) k) \<and>
   (fst (trade a b) \<longrightarrow>
      fst (snd (trade a b)) = update_collection a (can_receive b a) (can_receive a b) \<and>
      snd (snd (trade a b)) = update_collection b (can_receive a b) (can_receive b a)) \<and>
   (\<forall>k. 0 \<le> repeats_get (repeats a) k \<longrightarrow>
      0 \<le> repeats_get (repeats (fst (snd (trade a b)))) k) \<and>
   (\<forall>k. 0 \<le> repeats_get (repeats b) k \<longrightarrow>
      0 \<le> repeats_get (repeats (snd (snd (trade a b)))) k)"
  by (auto simp: trade_unfold get_update_collection can_receive_iff can_give_iff)

theorem trade_gives_only_repeats_witness:
  "fst (trade alice bob) \<and> 0 |\<in>| can_give alice \<and> 0 < repeats_get (repeats alice) 0 \<and>
   0 \<le> repeats_get (repeats (fst (snd (trade alice bob)))) 0"
proof -
  have 1: "fst (trade alice bob)" by code_simp
  have 2: "0 |\<in>| can_give alice" by code_simp
  have 3: "0 < repeats_get (repeats alice) 0" by code_simp
  have "\<forall>k. 0 \<le> repeats_get (repeats alice) k \<longrightarrow>
          0 \<le> repeats_get (repeats (fst (snd (trade alice bob)))) k"
    using trade_gives_only_repeats [where a = alice and b = bob] by blast
  then have 4: "0 \<le> repeats_get (repeats (fst (snd (trade alice bob)))) 0"
    using 3 by simp
  show ?thesis using 1 2 3 4 by simp
qed

text \<open>
  The scenario of claim C4 as it is written: \<open>carol\<close> has sticker 0 in the album and a
  repeat of sticker 1, \<open>dave\<close> has sticker 1 in the album and a repeat of sticker 0. Each
  offers what the other already has, so nobody can receive anything and no trade takes
  place.
\<close>

theorem two_friend_scenario_counterexample:
  "0 |\<in>| album carol \<and> 1 \<le> repeats_get (repeats carol) 1 \<and>
   1 |\<in>| album dave \<and> 1 \<le> repeats_get (repeats dave) 0 \<and>
   trade carol dave = (False, carol, dave)"
  by code_simp

text \<open>
  Claim C4, amended. When \<open>a\<close> has sticker 0 in the album and as a repeat and lacks
  sticker 1, and \<open>b\<close> has sticker 1 in the album and as a repeat and lacks sticker 0, the
  trade takes place, both albums then hold stickers 0 and 1, and the count of the sticker
  each one gave is one less than before (zero when it was one).
\<close>

theorem two_friend_trade:
  assumes "0 |\<in>| album a" "1 |\<notin>| album a" "1 \<le> repeats_get (repeats a) 0"
    and "1 |\<in>| album b" "0 |\<notin>| album b" "1 \<le> repeats_get (repeats b) 1"
  shows "fst (trade a b) \<and>
         0 |\<in>| album (fst (snd (trade a b))) \<and> 1 |\<in>| album (fst (snd (trade a b))) \<and>
         0 |\<in>| album (snd (snd (trade a b))) \<and> 1 |\<in>| album (snd (snd (trade a b))) \<and>
         repeats_get (repeats (fst (snd (trade a b)))) 0 = repeats_get (repeats a) 0 - 1 \<and>
         repeats_get (repeats (snd (snd (trade a b)))) 1 = repeats_get (repeats b) 1 - 1"
proof -
  have 1: "1 |\<in>| can_receive a b" using assms by (simp add: can_receive_iff)
  have 0: "0 |\<in>| can_receive b a" using assms by (simp add: can_receive_iff)
  from 0 1 have ne: "can_receive a b \<noteq> {||}" "can_receive b a \<noteq> {||}" by auto
  show ?thesis using assms 0 1 ne by (simp add: trade_unfold get_update_collection)
qed

theorem two_friend_trade_witness:
  "0 |\<in>| album alice \<and> 1 |\<notin>| album alice \<and> 1 \<le> repeats_get (repeats alice) 0 \<and>
   1 |\<in>| album bob \<and> 0 |\<notin>| album bob \<and> 1 \<le> repeats_get (repeats bob) 1 \<and>
   fst (trade alice bob) \<and> 1 |\<in>| album (fst (snd (trade alice bob))) \<and>
   0 |\<in>| album (snd (snd (trade alice bob))) \<and>
   repeats_get (repeats (fst (snd (trade alice bob)))) 0 = 0 \<and>
   repeats_get (repeats (snd (snd (trade alice bob)))) 1 = 0"
proof -
  have a: "0 |\<in>| album alice" "1 |\<notin>| album alice" "1 \<le> repeats_get (repeats alice) 0"
    by code_simp+
  have b: "1 |\<in>| album bob" "0 |\<notin>| album bob" "1 \<le> repeats_get (repeats bob) 1"
    by code_simp+
  have c: "repeats_get (repeats alice) 0 = 1" "repeats_get (repeats bob) 1 = 1"
    by code_simp+
  show ?thesis using a b c two_friend_trade [OF a b] by simp
qed

subsection \<open>Buying packs and the finished flag\<close>

text \<open>
  Claim C9. \<^verbatim>\<open>buy_pack\<close> adds exactly one to \<^verbatim>\<open>money_spent\<close>, whatever the size asked for and
  whatever is drawn; with size 0 the album and the repeats stay as they were and the
  money spent still goes up by one.
\<close>

theorem buy_pack_costs_one:
  "money_spent (fst (buy_pack p k ch)) = money_spent p + 1 \<and>
   (choice_ok (n_stickers p) 0 (ch (n_stickers p) 0) \<longrightarrow>
      album (fst (buy_pack p 0 ch)) = album p \<and>
      repeats (fst (buy_pack p 0 ch)) = repeats p \<and>
      money_spent (fst (buy_pack p 0 ch)) = money_spent p + 1)"
  by (auto simp: buy_pack_def Let_def choice_ok_def split: sum.splits)

theorem buy_pack_costs_one_witness:
  "choice_ok (n_stickers alice) 0 (drawn [] (n_stickers alice) 0) \<and>
   album (fst (buy_pack alice 0 (drawn []))) = album alice \<and>
   repeats (fst (buy_pack alice 0 (drawn []))) = repeats alice \<and>
   money_spent (fst (buy_pack alice 0 (drawn []))) = 2 \<and>
   money_spent (fst (buy_pack alice 3 (drawn [0, 1, 1]))) = 2"
proof -
  have 1: "choice_ok (n_stickers alice) 0 (drawn [] (n_stickers alice) 0)" by code_simp
  have 2: "money_spent alice = 1" by code_simp
  show ?thesis
    using 1 2 buy_pack_costs_one [of alice 0 "drawn []"]
      buy_pack_costs_one [of alice 3 "drawn [0, 1, 1]"] by simp
qed

text \<open>
  Claim C8. Over any sequence of \<^verbatim>\<open>buy_pack\<close> and \<^verbatim>\<open>update_collection\<close> calls the album only
  grows: no identifier leaves it, and its size does not go down.
\<close>

theorem album_non_decreasing:
  "album p |\<subseteq>| album (foldl call p cs) \<and>
   fcard (album p) \<le> fcard (album (foldl call p cs))"
  using calls_album_mono [of p cs] by (simp add: fcard_mono)

theorem album_non_decreasing_witness:
  "album alice |\<subseteq>|
     album (foldl call alice [Buy_pack 2 (drawn [0, 1]), Update_collection {|0|} {|5|}]) \<and>
   fcard (album alice) = 1 \<and>
   fcard (album (foldl call alice [Buy_pack 2 (drawn [0, 1]), Update_collection {|0|} {|5|}]))
     = 3"
proof -
  have 1: "fcard (album alice) = 1" by code_simp
  have 2: "fcard (album (foldl call alice
             [Buy_pack 2 (drawn [0, 1]), Update_collection {|0|} {|5|}])) = 3"
    by code_simp
  show ?thesis
    using 1 2
      album_non_decreasing
        [of alice "[Buy_pack 2 (drawn [0, 1]), Update_collection {|0|} {|5|}]"]
    by simp
qed

text \<open>
  Claim C6. A sticker identifier is an integer of \<^verbatim>\<open>range(n_stickers)\<close>: the draws of
  \<^verbatim>\<open>buy_pack\<close> are taken from that range, and \<^verbatim>\<open>update_collection\<close> receives what
  \<^verbatim>\<open>trade\<close> found among the repeats of a person of the same economy. After the
  construction and after every later sequence of \<^verbatim>\<open>buy_pack\<close> and \<^verbatim>\<open>update_collection\<close>
  calls on such identifiers, the flag is set exactly when the album holds \<^verbatim>\<open>n_stickers\<close>
  stickers. And a flag that is set stays set over any calls at all.
\<close>

theorem finished_iff_in_range:
  assumes "choice_ok n endowment (ch n endowment)" "Person_init endowment n ch = Inr p0"
    and "list_all (call_in_range n) cs"
  shows "(is_finished (foldl call p0 cs) \<longleftrightarrow>
            int (fcard (album (foldl call p0 cs))) = n_stickers (foldl call p0 cs)) \<and>
         (is_finished p \<longrightarrow> is_finished (foldl call p ds))"
proof -
  have "person_inv n (foldl call p0 cs)"
    using assms by (intro calls_preserve_inv Person_init_inv)
  then show ?thesis by (auto simp: person_inv_def calls_is_finished_mono)
qed

theorem finished_iff_in_range_witness:
  "choice_ok 2 1 (drawn [0] 2 1) \<and>
   Person_init 1 2 (drawn [0]) =
     Inr \<lparr>album = {|0|}, repeats = fmempty, is_finished = False, money_spent = 1,
          n_stickers = 2\<rparr> \<and>
   list_all (call_in_range 2) [Buy_pack 1 (drawn [0]), Update_collection {||} {|1|}] \<and>
   is_finished (foldl call \<lparr>album = {|0|}, repeats = fmempty, is_finished = False,
                            money_spent = 1, n_stickers = 2\<rparr>
                  [Buy_pack 1 (drawn [0]), Update_collection {||} {|1|}]) \<and>
   int (fcard (album (foldl call \<lparr>album = {|0|}, repeats = fmempty, is_finished = False,
                                   money_spent = 1, n_stickers = 2\<rparr>
                  [Buy_pack 1 (drawn [0]), Update_collection {||} {|1|}]))) = 2 \<and>
   is_finished (members two_friends ! 0) \<and>
   is_finished (foldl call (members two_friends ! 0)
                  [Update_collection {|0|} {|7|}, Buy_pack 1 (drawn [1])])"
proof -
  let ?p0 = "\<lparr>album = {|0|}, repeats = fmempty, is_finished = False, money_spent = 1,
              n_stickers = 2\<rparr>"
  let ?cs = "[Buy_pack 1 (drawn [0]), Update_collection {||} {|1|}]"
  have 1: "choice_ok 2 1 (drawn [0] 2 1)" by code_simp
  have 2: "Person_init 1 2 (drawn [0]) = Inr ?p0" by code_simp
  have 3: "list_all (call_in_range 2) ?cs" by code_simp
  have 4: "int (fcard (album (foldl call ?p0 ?cs))) = 2" by code_simp
  have 5: "n_stickers (foldl call ?p0 ?cs) = 2" by code_simp
  have 6: "is_finished (members two_friends ! 0)" by code_simp
  show ?thesis
    using 1 2 3 4 5 6
      finished_iff_in_range [OF 1 2 3, of "members two_friends ! 0"
        "[Update_collection {|0|} {|7|}, Buy_pack 1 (drawn [1])]"]
    by simp
qed

subsection \<open>Rounds\<close>

text \<open>
  Claim C5. When a round returns, every member that is not in \<^verbatim>\<open>have_traded\<close> after the
  two trading phases has spent exactly one more than before the round.
\<close>

theorem round_completeness:
  assumes "trade_phases g rando_endowment (e, c) = Inr (e2, have_traded, c2)"
    and "round_of_trade g rando_endowment (e, c) = Inr (e3, c3)"
    and "i < length (members e)" "i |\<notin>| have_traded"
  shows "money_spent (members e3 ! i) = money_spent (members e ! i) + 1"
proof -
  have m: "monies e2 = monies e" using assms(1) by (rule monies_trade_phases)
  then have len: "length (members e2) = length (members e)" by (rule monies_eq_length)
  have buy: "buy_phase g (did_not_trade e2 have_traded) (e2, c2) = Inr (e3, c3)"
    using assms(1,2) by (simp add: round_of_trade_def)
  have "money_spent (members e3 ! i) =
          money_spent (members e2 ! i) + (if i \<in> set (did_not_trade e2 have_traded) then 1 else 0)"
    using buy_phase_money [OF buy] assms(3) len by (simp add: did_not_trade_props)
  moreover have "money_spent (members e2 ! i) = money_spent (members e ! i)"
    using m assms(3) len by (metis nth_monies)
  ultimately show ?thesis using assms(3,4) len by (simp add: did_not_trade_props)
qed

theorem round_completeness_witness:
  "trade_phases (tape [[0, 0], [1, 1], [2, 0], [1]]) 500 (three_friends, 3) =
     Inr (three_friends_traded, {|0, 1|}, 3) \<and>
   round_of_trade (tape [[0, 0], [1, 1], [2, 0], [1]]) 500 (three_friends, 3) =
     Inr (three_friends_after, 4) \<and>
   2 < length (members three_friends) \<and> 2 |\<notin>| {|0, 1 :: nat|} \<and>
   money_spent (members three_friends ! 2) = 1 \<and>
   money_spent (members three_friends_after ! 2) = 2"
proof -
  have 1: "trade_phases (tape [[0, 0], [1, 1], [2, 0], [1]]) 500 (three_friends, 3) =
      Inr (three_friends_traded, {|0, 1|}, 3)"
    by code_simp
  have 2: "round_of_trade (tape [[0, 0], [1, 1], [2, 0], [1]]) 500 (three_friends, 3) =
      Inr (three_friends_after, 4)"
    by code_simp
  have 3: "2 < length (members three_friends)" by code_simp
  have 4: "2 |\<notin>| {|0, 1 :: nat|}" by simp
  have 5: "money_spent (members three_friends ! 2) = 1" by code_simp
  show ?thesis using 1 2 3 4 5 round_completeness [OF 1 2 3 4] by simp
qed

text \<open>
  Claim C3 says that a finished person buys no more packs. The code at the input of the
  claim: two friends, album of two stickers, the first finished by the constructor and
  the second not. In the round the first takes part in no trade, so it is not in
  \<^verbatim>\<open>have_traded\<close>, and the last loop makes it buy a pack: its money spent goes from 1 to
  2 and the sticker drawn becomes a repeat.
\<close>

theorem finished_member_buys_pack:
  "Economy_init (tape [[0, 1], [0, 0], [0], [1]]) 0 2 2 0 1 2 = Inr (two_friends, 2) \<and>
   is_finished (members two_friends ! 0) \<and>
   money_spent (members two_friends ! 0) = 1 \<and>
   (case round_of_trade (tape [[0, 1], [0, 0], [0], [1]]) 500 (two_friends, 2) of
      Inl err \<Rightarrow> False
    | Inr (e, c) \<Rightarrow>
        money_spent (members e ! 0) = 2 \<and> repeats (members e ! 0) = fmupd 0 1 fmempty)"
  by code_simp

subsection \<open>The simulation\<close>

text \<open>
  Claim C10. With an album of one sticker, a positive starting endowment and at least
  one friend, when the draws of the constructors are draws numpy can make, the economy
  is built, every member is finished, the number of finished members is \<^verbatim>\<open>n_friends\<close>,
  and \<^verbatim>\<open>run_simulation\<close> returns without entering its loop: no fuel is needed, the
  economy and the number of draws are unchanged, \<^verbatim>\<open>n_rounds\<close> is 0 and nothing is
  printed.
\<close>

theorem album_size_one_terminates_at_round_0:
  assumes "1 \<le> nf" "0 < starting_endowment"
    and "\<forall>i. c \<le> i \<and> i < c + nat nf \<longrightarrow>
           choice_ok 1 starting_endowment (g i 1 starting_endowment)"
  shows "\<exists>e c'. Economy_init g c nf starting_endowment nr spp 1 = Inr (e, c') \<and>
           length (members e) = nat nf \<and> list_all is_finished (members e) \<and>
           n_finished e = nf \<and>
           (\<forall>fuel rando_endowment n_logging.
              run_simulation fuel g rando_endowment n_logging (e, c') =
                Some (Inr (e, c', 0, [])))"
proof -
  from create_people_loop_album_size_one
    [where g = g and c = c and m = "nat nf" and k = starting_endowment and ms = "[]"] assms
  obtain ms where ms: "create_people_loop g starting_endowment 1 (nat nf) ([], c) =
      Inr (ms, c + nat nf)" "length ms = nat nf" "list_all is_finished ms"
    by auto
  let ?e = "\<lparr>n_friends = nf, n_randos = nr, stickers_per_pack = spp, finishers = {||},
             album_size = 1, members = ms\<rparr>"
  have init: "Economy_init g c nf starting_endowment nr spp 1 = Inr (?e, c + nat nf)"
    using ms(1) by (simp add: Economy_init_def create_people_def)
  have "filter is_finished ms = ms" using ms(3) by (simp add: list_all_iff)
  then have fin: "n_finished ?e = nf" using ms(2) assms(1) by (simp add: n_finished_def)
  then have "run_simulation fuel g re nl (?e, c + nat nf) = Some (Inr (?e, c + nat nf, 0, []))"
    for fuel re nl
    by (simp add: run_simulation_def run_loop.simps)
  with init ms fin show ?thesis by simp
qed

theorem album_size_one_terminates_at_round_0_witness:
  "(1::int) \<le> 2 \<and> (0::int) < 3 \<and> choice_ok 1 3 (drawn [0, 0, 0] 1 3) \<and>
   (\<exists>e c'. Economy_init (\<lambda>c. drawn [0, 0, 0]) 0 2 3 5 5 1 = Inr (e, c') \<and>
      length (members e) = 2 \<and> list_all is_finished (members e) \<and> n_finished e = 2 \<and>
      run_simulation 0 (\<lambda>c. drawn [0, 0, 0]) 500 10 (e, c') = Some (Inr (e, c', 0, [])))"
proof -
  have 1: "(1::int) \<le> 2" and 2: "(0::int) < 3" by simp_all
  have 3: "\<forall>i. 0 \<le> i \<and> i < 0 + nat 2 \<longrightarrow>
             choice_ok 1 3 ((\<lambda>c. drawn [0, 0, 0]) i 1 3)"
    by (simp add: choice_ok_def drawn_def)
  have 4: "choice_ok 1 3 (drawn [0, 0, 0] 1 3)" by code_simp
  show ?thesis
    using 1 2 3 4
      album_size_one_terminates_at_round_0
        [where nf = 2 and starting_endowment = 3 and c = 0 and g = "\<lambda>c. drawn [0, 0, 0]"
           and nr = 5 and spp = 5]
    by auto
qed

end
